theory Spec2Isabelle
  imports Complex_Main
begin

section \<open>Calendar dates\<close>

text \<open>
  The program works on JavaScript \<open>Date\<close> values through the date-fns helpers
  \<open>addMonths\<close>, \<open>subMonths\<close>, \<open>startOfMonth\<close>, \<open>differenceInDays\<close> and \<open>isValid\<close>,
  and compares them with the relational operators, that is, by their time stamps.
  These helpers belong to the library, not to the repository; they are modelled here by
  their documented behaviour on calendar days.

  A date is modelled at day granularity as a local calendar date (year, month 1..12, day of
  month). Time of day, time zones and daylight saving are not modelled, and percentages
  are exact real numbers rather than IEEE doubles. JavaScript's \<open>Invalid Date\<close> enters the
  program only through the guard \<open>isValid(sub.startDate)\<close>; a record that is not a
  calendar day stands for it there, and the properties of the renewal projection are
  stated for valid start dates.
\<close>

record date =
  year :: int
  month :: nat
  day :: nat

definition D :: "int \<Rightarrow> nat \<Rightarrow> nat \<Rightarrow> date" where
  "D y m d = \<lparr>year = y, month = m, day = d\<rparr>"

definition isLeapYear :: "int \<Rightarrow> bool" where
  "isLeapYear y = ((y mod 4 = 0 \<and> y mod 100 \<noteq> 0) \<or> y mod 400 = 0)"

text \<open>Number of days of month \<open>m\<close> (1..12) of year \<open>y\<close>.\<close>

definition daysInMonth :: "int \<Rightarrow> nat \<Rightarrow> nat" where
  "daysInMonth y m =
     (if m = 2 then (if isLeapYear y then 29 else 28)
      else if m = 4 \<or> m = 6 \<or> m = 9 \<or> m = 11 then 30 else 31)"

text \<open>\<open>isValid\<close> of date-fns: the value denotes a real calendar day.\<close>

definition isValid :: "date \<Rightarrow> bool" where
  "isValid d = (1 \<le> month d \<and> month d \<le> 12 \<and> 1 \<le> day d \<and> day d \<le> daysInMonth (year d) (month d))"

text \<open>Months are counted from year 0: \<open>monthIndex\<close> is \<open>12 * year + (month - 1)\<close>.\<close>

definition monthIndex :: "date \<Rightarrow> int" where
  "monthIndex d = year d * 12 + int (month d) - 1"

text \<open>Days from 1970-01-01 to the first of January of year \<open>y\<close>.\<close>

definition daysBeforeYear :: "int \<Rightarrow> int" where
  "daysBeforeYear y =
     365 * (y - 1970) + ((y - 1) div 4 - (y - 1) div 100 + (y - 1) div 400) - 477"

text \<open>Days of year \<open>y\<close> before its month number \<open>k + 1\<close>, for \<open>k\<close> in 0..11.\<close>

definition daysBeforeMonth :: "int \<Rightarrow> nat \<Rightarrow> int" where
  "daysBeforeMonth y k =
     [0, 31, 59, 90, 120, 151, 181, 212, 243, 273, 304, 334] ! k
       + (if 2 \<le> k \<and> isLeapYear y then 1 else 0)"

definition daysBeforeMonthIndex :: "int \<Rightarrow> int" where
  "daysBeforeMonthIndex t = daysBeforeYear (t div 12) + daysBeforeMonth (t div 12) (nat (t mod 12))"

text \<open>
  \<open>getTime\<close> is the time stamp of a date, counted in days since 1970-01-01 instead of
  milliseconds. As the JavaScript \<open>Date\<close> constructor does, it carries a month or day that
  is out of range over into the following months.
\<close>

definition getTime :: "date \<Rightarrow> int" where
  "getTime d = daysBeforeMonthIndex (monthIndex d) + int (day d) - 1"

text \<open>The comparisons \<open>a <= b\<close>, \<open>a < b\<close> of two \<open>Date\<close> objects compare their time stamps.\<close>

definition date_le :: "date \<Rightarrow> date \<Rightarrow> bool" where
  "date_le a b = (getTime a \<le> getTime b)"

definition date_lt :: "date \<Rightarrow> date \<Rightarrow> bool" where
  "date_lt a b = (getTime a < getTime b)"

text \<open>\<open>differenceInDays(later, earlier)\<close>: the number of full days between two dates.\<close>

definition differenceInDays :: "date \<Rightarrow> date \<Rightarrow> int" where
  "differenceInDays a b = getTime a - getTime b"

text \<open>
  \<open>addMonths(date, amount)\<close> of date-fns: an amount of 0 returns the date unchanged;
  otherwise the month is moved and a day of month that does not exist in the target
  month becomes its last day (31 January plus one month is the last day of February).
\<close>

definition addMonths :: "date \<Rightarrow> int \<Rightarrow> date" where
  "addMonths d amount =
     (if amount = 0 then d
      else
        let t = monthIndex d + amount;
            y = t div 12;
            m = nat (t mod 12) + 1;
            daysInTarget = daysInMonth y m
        in if day d \<ge> daysInTarget then \<lparr>year = y, month = m, day = daysInTarget\<rparr>
           else \<lparr>year = y, month = m, day = day d\<rparr>)"

definition subMonths :: "date \<Rightarrow> int \<Rightarrow> date" where
  "subMonths d amount = addMonths d (- amount)"

definition startOfMonth :: "date \<Rightarrow> date" where
  "startOfMonth d = d\<lparr>day := 1\<rparr>"


section \<open>The timeline range (\<open>utils/dateHelpers\<close>)\<close>

text \<open>
  \<open>getTimelineRange(customStart?, customEnd?)\<close> reads the clock with \<open>new Date()\<close>; the
  model takes that reading as the parameter \<open>now\<close>. An omitted argument is \<open>None\<close>
  (a \<open>Date\<close> object is always truthy).

  The result is a sum, so that a failure of the function can be expressed:
  \<open>InvalidRangeError\<close> is the failure that the specification names for a window whose end
  precedes its start. The source function contains no \<open>throw\<close>, so the model has no
  \<open>Inl\<close> branch.
\<close>

datatype range_error = InvalidRangeError

record timeline_range =
  range_start :: date
  range_end :: date
  range_months :: "date list"

text \<open>The loop \<open>while (current <= end) { months.push(current); current = addMonths(current, 1) }\<close>.\<close>

function monthsLoop :: "date \<Rightarrow> date \<Rightarrow> date list" where
  "monthsLoop current end_date =
     (if date_le current end_date then current # monthsLoop (addMonths current 1) end_date
      else [])"
  by pat_completeness auto

definition getTimelineRange :: "date \<Rightarrow> date option \<Rightarrow> date option \<Rightarrow> range_error + timeline_range" where
  "getTimelineRange now customStart customEnd =
     (let start = (case customStart of Some s \<Rightarrow> startOfMonth s
                   | None \<Rightarrow> startOfMonth (subMonths now 1));
          end_date = (case customEnd of Some e \<Rightarrow> startOfMonth e
                      | None \<Rightarrow> startOfMonth (addMonths now 13))
      in Inr \<lparr>range_start = start, range_end = end_date, range_months = monthsLoop start end_date\<rparr>)"

text \<open>\<open>getPositionPercentage(date, timelineStart, totalDays)\<close>.\<close>

definition getPositionPercentage :: "date \<Rightarrow> date \<Rightarrow> int \<Rightarrow> real" where
  "getPositionPercentage d timelineStart totalDays =
     (if date_lt d timelineStart then 0
      else (real_of_int (differenceInDays d timelineStart) / real_of_int totalDays) * 100)"

text \<open>\<open>getWidthPercentage(start, end, timelineStart, timelineEnd, totalDays)\<close>.\<close>

definition effectiveStart :: "date \<Rightarrow> date \<Rightarrow> date" where
  "effectiveStart start timelineStart = (if date_lt start timelineStart then timelineStart else start)"

definition effectiveEnd :: "date option \<Rightarrow> date \<Rightarrow> date" where
  "effectiveEnd end_opt timelineEnd =
     (case end_opt of None \<Rightarrow> timelineEnd
      | Some e \<Rightarrow> if date_lt timelineEnd e then timelineEnd else e)"

definition getWidthPercentage :: "date \<Rightarrow> date option \<Rightarrow> date \<Rightarrow> date \<Rightarrow> int \<Rightarrow> real" where
  "getWidthPercentage start end_opt timelineStart timelineEnd totalDays =
     (let es = effectiveStart start timelineStart;
          ee = effectiveEnd end_opt timelineEnd
      in if date_lt ee es then 0
         else let durationDays = differenceInDays ee es
              in (real_of_int (durationDays + 1) / real_of_int totalDays) * 100)"

section \<open>The subscription row (\<open>components/Timeline.tsx\<close>)\<close>

datatype BillingCycle = MONTHLY | YEARLY

text \<open>
  Of a \<open>Subscription\<close> the bar geometry reads only the fields below; \<open>id\<close>, \<open>name\<close>,
  \<open>amount\<close>, \<open>currency\<close>, \<open>color\<close>, \<open>icon\<close>, \<open>order\<close> and \<open>type\<close> do not enter it.
\<close>

record Subscription =
  cycle :: BillingCycle
  startDate :: date
  endDate :: "date option"
  autoRenew :: bool

definition MAX_LOOPS :: nat where
  "MAX_LOOPS = 1000"

text \<open>One cycle period: \<open>addMonths(d, 1)\<close> for a monthly cycle, \<open>addMonths(d, 12)\<close> otherwise.\<close>

definition addCycle :: "BillingCycle \<Rightarrow> date \<Rightarrow> date" where
  "addCycle c d = (if c = MONTHLY then addMonths d 1 else addMonths d 12)"

text \<open>
  The loop \<open>while (nextRenewal <= today && loopCount < MAX_LOOPS)\<close>, started with
  \<open>loopCount = 0\<close>. The model returns both variables as they are when the loop is left.
\<close>

function nextRenewalLoop :: "BillingCycle \<Rightarrow> date \<Rightarrow> date \<Rightarrow> nat \<Rightarrow> date \<times> nat" where
  "nextRenewalLoop c today nextRenewal loopCount =
     (if date_le nextRenewal today \<and> loopCount < MAX_LOOPS
      then nextRenewalLoop c today (addCycle c nextRenewal) (loopCount + 1)
      else (nextRenewal, loopCount))"
  by pat_completeness auto

text \<open>
  The value of the variable \<open>nextRenewal\<close> after the block that computes it (the
  specification's \<open>projectNextRenewal(startDate, cycle, referenceDate)\<close>); \<open>today\<close> is the
  reading of the clock.
\<close>

definition nextRenewal :: "date \<Rightarrow> BillingCycle \<Rightarrow> date \<Rightarrow> date" where
  "nextRenewal start c today =
     (if isValid start then
        (if date_le start today then fst (nextRenewalLoop c today start 0)
         else addCycle c start)
      else start)"

definition visualEndDate :: "Subscription \<Rightarrow> date \<Rightarrow> date \<Rightarrow> date option" where
  "visualEndDate sub end_date today =
     (if autoRenew sub then Some end_date
      else if endDate sub = None then
        (let n = nextRenewal (startDate sub) (cycle sub) today
         in Some (if date_lt end_date n then n else end_date))
      else endDate sub)"

definition visualWidth :: "Subscription \<Rightarrow> date \<Rightarrow> date \<Rightarrow> int \<Rightarrow> date \<Rightarrow> real" where
  "visualWidth sub start end_date totalDays today =
     getWidthPercentage (startDate sub) (visualEndDate sub end_date today) start end_date totalDays"

definition solidEndDate :: "Subscription \<Rightarrow> date \<Rightarrow> date" where
  "solidEndDate sub today =
     (case endDate sub of Some e \<Rightarrow> e | None \<Rightarrow> nextRenewal (startDate sub) (cycle sub) today)"

definition solidEndPct :: "Subscription \<Rightarrow> date \<Rightarrow> int \<Rightarrow> date \<Rightarrow> real" where
  "solidEndPct sub start totalDays today =
     getPositionPercentage (solidEndDate sub today) start totalDays"

definition barStartPct :: "Subscription \<Rightarrow> date \<Rightarrow> int \<Rightarrow> real" where
  "barStartPct sub start totalDays = getPositionPercentage (startDate sub) start totalDays"

definition barEndPct :: "Subscription \<Rightarrow> date \<Rightarrow> date \<Rightarrow> int \<Rightarrow> date \<Rightarrow> real" where
  "barEndPct sub start end_date totalDays today =
     barStartPct sub start totalDays + visualWidth sub start end_date totalDays today"

definition splitPct :: "Subscription \<Rightarrow> date \<Rightarrow> date \<Rightarrow> int \<Rightarrow> date \<Rightarrow> real" where
  "splitPct sub start end_date totalDays today =
     min (solidEndPct sub start totalDays today) (barEndPct sub start end_date totalDays today)"

definition hasActive :: "Subscription \<Rightarrow> date \<Rightarrow> date \<Rightarrow> int \<Rightarrow> date \<Rightarrow> bool" where
  "hasActive sub start end_date totalDays today =
     (splitPct sub start end_date totalDays today > barStartPct sub start totalDays)"

definition hasFuture :: "Subscription \<Rightarrow> date \<Rightarrow> date \<Rightarrow> int \<Rightarrow> date \<Rightarrow> bool" where
  "hasFuture sub start end_date totalDays today =
     (autoRenew sub \<and>
      barEndPct sub start end_date totalDays today > splitPct sub start end_date totalDays today)"

text \<open>
  A rendered bar: the \<open>left\<close> and \<open>width\<close> of its style, its type, and whether its left
  and right corners are flattened. Colour, opacity, pattern and shadow are styling only.
\<close>

datatype barType = Active | Future

record BarSegment =
  segLeft :: real
  segWidth :: real
  segType :: barType
  flatLeft :: bool
  flatRight :: bool

text \<open>
  \<open>renderBar(startP, endP, type)\<close>; it returns \<open>null\<close> for a bar that is too small. The
  values \<open>hasActive\<close> and \<open>hasFuture\<close> of the enclosing scope are passed as parameters.
\<close>

definition renderBar :: "bool \<Rightarrow> bool \<Rightarrow> real \<Rightarrow> real \<Rightarrow> barType \<Rightarrow> BarSegment option" where
  "renderBar hasA hasF startP endP ty =
     (if endP \<le> startP + 1 / 1000 then None
      else Some \<lparr>segLeft = startP, segWidth = endP - startP, segType = ty,
                 flatLeft = (ty = Future \<and> hasA), flatRight = (ty = Active \<and> hasF)\<rparr>)"

definition rendered :: "BarSegment option \<Rightarrow> BarSegment list" where
  "rendered r = (case r of None \<Rightarrow> [] | Some s \<Rightarrow> [s])"

text \<open>
  The bar area of a \<open>SubscriptionRow\<close>: the elements that
  \<open>renderBar(barStartPct, splitPct, 'active')\<close> and \<open>renderBar(splitPct, barEndPct, 'future')\<close>
  produce, in this order (the specification's \<open>splitBar(subscription, window)\<close>).
\<close>

definition splitBar :: "Subscription \<Rightarrow> date \<Rightarrow> date \<Rightarrow> int \<Rightarrow> date \<Rightarrow> BarSegment list" where
  "splitBar sub start end_date totalDays today =
     (let barStart = barStartPct sub start totalDays;
          barEnd = barEndPct sub start end_date totalDays today;
          split = splitPct sub start end_date totalDays today;
          hasA = hasActive sub start end_date totalDays today;
          hasF = hasFuture sub start end_date totalDays today
      in rendered (renderBar hasA hasF barStart split Active)
         @ rendered (renderBar hasA hasF split barEnd Future))"

section \<open>The date range form (\<open>DateRangeModal.handleSubmit\<close>)\<close>

text \<open>
  The two inputs of type \<open>month\<close> hold either the empty string (\<open>None\<close>) or a year and a
  month; \<open>new Date(str + '-01')\<close> is the first day of that month. The handler either
  alerts and returns, or calls \<open>onSave\<close> and then \<open>onClose\<close>, or only calls \<open>onClose\<close>.
\<close>

datatype submit_outcome = Alerted | Saved date date | Closed

definition handleSubmit :: "(int \<times> nat) option \<Rightarrow> (int \<times> nat) option \<Rightarrow> submit_outcome" where
  "handleSubmit startStr endStr =
     (case (startStr, endStr) of
        (Some (ys, ms), Some (ye, me)) \<Rightarrow>
          (let newStart = D ys ms 1; newEnd = D ye me 1
           in if date_lt newEnd newStart then Alerted else Saved newStart newEnd)
      | _ \<Rightarrow> Closed)"

section \<open>The width contract in the specification's words\<close>

text \<open>
  The maximum and minimum of two dates, by time stamp, and the specification's
  \<open>widthOf(start, end | open, windowStart, windowEnd, totalWindowDays)\<close>: these follow the
  wording of the specification, not the source, and are compared with the source below.
\<close>

definition date_max :: "date \<Rightarrow> date \<Rightarrow> date" where
  "date_max a b = (if date_lt b a then a else b)"

definition date_min :: "date \<Rightarrow> date \<Rightarrow> date" where
  "date_min a b = (if date_lt b a then b else a)"

definition widthOf :: "date \<Rightarrow> date option \<Rightarrow> date \<Rightarrow> date \<Rightarrow> int \<Rightarrow> real" where
  "widthOf start end_opt windowStart windowEnd totalWindowDays =
     (let effStart = date_max start windowStart;
          effEnd = date_min (case end_opt of None \<Rightarrow> windowEnd | Some e \<Rightarrow> e) windowEnd
      in if date_lt effEnd effStart then 0
         else (real_of_int (differenceInDays effEnd effStart + 1) / real_of_int totalWindowDays) * 100)"

section \<open>Calendar arithmetic\<close>

text \<open>
  The month loop of \<open>getTimelineRange\<close> terminates because each month has at least 28
  days; the facts below are what its termination proof needs.
\<close>

lemma div_pred_step:
  fixes y c :: int
  assumes "0 < c"
  shows "y div c = (y - 1) div c + (if y mod c = 0 then 1 else 0)"
proof (cases "y mod c = 0")
  case True
  have "y - 1 = c * (y div c - 1) + (c - 1)"
    using True mult_div_mod_eq[of c y] by (simp add: algebra_simps)
  moreover have "0 \<le> c - 1" "c - 1 < c" using assms by simp_all
  ultimately have "(y - 1) div c = y div c - 1"
    by (rule int_div_pos_eq)
  with True show ?thesis by simp
next
  case False
  have "0 \<le> y mod c" using assms by simp
  with False have pos: "0 \<le> y mod c - 1" by linarith
  have lt: "y mod c - 1 < c" using pos_mod_bound[OF assms, of y] by linarith
  have "y - 1 = c * (y div c) + (y mod c - 1)"
    using mult_div_mod_eq[of c y] by simp
  then have "(y - 1) div c = y div c"
    using pos lt by (rule int_div_pos_eq)
  with False show ?thesis by simp
qed

lemma mod_400_100: "(y::int) mod 400 = 0 \<Longrightarrow> y mod 100 = 0"
  using mod_mod_cancel[of 100 400 y] by simp

lemma mod_100_4: "(y::int) mod 100 = 0 \<Longrightarrow> y mod 4 = 0"
  using mod_mod_cancel[of 4 100 y] by simp

lemma daysBeforeYear_Suc:
  "daysBeforeYear (y + 1) = daysBeforeYear y + (if isLeapYear y then 366 else 365)"
proof -
  define a where "a = (if y mod 4 = 0 then 1 else (0::int))"
  define b where "b = (if y mod 100 = 0 then 1 else (0::int))"
  define c where "c = (if y mod 400 = 0 then 1 else (0::int))"
  have e4: "y div 4 = (y - 1) div 4 + a"
    unfolding a_def by (rule div_pred_step) simp
  have e100: "y div 100 = (y - 1) div 100 + b"
    unfolding b_def by (rule div_pred_step) simp
  have e400: "y div 400 = (y - 1) div 400 + c"
    unfolding c_def by (rule div_pred_step) simp
  have "daysBeforeYear (y + 1) = 365 * (y - 1969) + (y div 4 - y div 100 + y div 400) - 477"
    unfolding daysBeforeYear_def by simp
  also have "\<dots> = daysBeforeYear y + 365 + (a - b + c)"
    unfolding daysBeforeYear_def e4 e100 e400 by (simp add: algebra_simps)
  finally have step: "daysBeforeYear (y + 1) = daysBeforeYear y + 365 + (a - b + c)" .
  have leap: "a - b + c = (if isLeapYear y then 1 else 0)"
    unfolding a_def b_def c_def isLeapYear_def
    using mod_400_100[of y] mod_100_4[of y] by auto
  show ?thesis unfolding step leap by simp
qed

lemma daysBeforeMonth_step:
  assumes "k < 11"
  shows "daysBeforeMonth y (Suc k) = daysBeforeMonth y k + int (daysInMonth y (Suc k))"
proof -
  from assms have "k = 0 \<or> k = 1 \<or> k = 2 \<or> k = 3 \<or> k = 4 \<or> k = 5 \<or> k = 6 \<or> k = 7 \<or> k = 8 \<or> k = 9 \<or> k = 10"
    by arith
  then show ?thesis
    unfolding daysBeforeMonth_def daysInMonth_def
    by (elim disjE) (simp_all add: numeral_eq_Suc)
qed

lemma daysBeforeMonth_last:
  "daysBeforeMonth y 11 + int (daysInMonth y 12) = (if isLeapYear y then 366 else 365)"
  unfolding daysBeforeMonth_def daysInMonth_def by (simp add: numeral_eq_Suc)

lemma daysBeforeMonthIndex_step:
  "daysBeforeMonthIndex (t + 1) =
     daysBeforeMonthIndex t + int (daysInMonth (t div 12) (nat (t mod 12) + 1))"
proof (cases "t mod 12 = 11")
  case True
  have "t + 1 = 12 * (t div 12 + 1) + 0"
    using True mult_div_mod_eq[of 12 t] by simp
  then have d: "(t + 1) div 12 = t div 12 + 1"
    by (rule int_div_pos_eq) simp_all
  have m: "(t + 1) mod 12 = 0"
    using True mod_add_left_eq[of t 12 1] by simp
  have n: "nat (t mod 12) = 11" using True by simp
  have z: "daysBeforeMonth (t div 12 + 1) (nat 0) = 0"
    unfolding daysBeforeMonth_def by simp
  show ?thesis
    unfolding daysBeforeMonthIndex_def d m n z
    using daysBeforeMonth_last[of "t div 12"]
    by (simp add: daysBeforeYear_Suc)
next
  case False
  have r: "0 \<le> t mod 12" "t mod 12 < 12" by simp_all
  with False have lt: "nat (t mod 12) < 11" by linarith
  have e: "t + 1 = 12 * (t div 12) + (t mod 12 + 1)"
    using mult_div_mod_eq[of 12 t] by simp
  have b: "0 \<le> t mod 12 + 1" "t mod 12 + 1 < 12" using r False by linarith+
  have d: "(t + 1) div 12 = t div 12"
    using e b by (rule int_div_pos_eq)
  have m: "(t + 1) mod 12 = t mod 12 + 1"
    using e b by (rule int_mod_pos_eq)
  have n: "nat (t mod 12 + 1) = Suc (nat (t mod 12))" using r by linarith
  show ?thesis
    unfolding daysBeforeMonthIndex_def d m n
    using daysBeforeMonth_step[OF lt, of "t div 12"] by simp
qed

lemma daysInMonth_ge: "28 \<le> daysInMonth y m"
  unfolding daysInMonth_def by simp

lemma daysBeforeMonthIndex_less:
  "daysBeforeMonthIndex t + 28 \<le> daysBeforeMonthIndex (t + 1)"
  unfolding daysBeforeMonthIndex_step
  using daysInMonth_ge[of "t div 12" "nat (t mod 12) + 1"] by linarith

lemma monthIndex_addMonths: "monthIndex (addMonths d n) = monthIndex d + n"
proof (cases "n = 0")
  case True
  then show ?thesis by (simp add: addMonths_def)
next
  case False
  have r: "0 \<le> (monthIndex d + n) mod 12" by simp
  have "monthIndex (addMonths d n)
          = (monthIndex d + n) div 12 * 12 + int (nat ((monthIndex d + n) mod 12) + 1) - 1"
    using False by (simp add: addMonths_def Let_def monthIndex_def)
  also have "\<dots> = (monthIndex d + n) div 12 * 12 + (monthIndex d + n) mod 12"
    using r by simp
  finally show ?thesis by simp
qed


lemma getTime_lower: "daysBeforeMonthIndex (monthIndex d) - 1 \<le> getTime d"
  unfolding getTime_def by simp

termination monthsLoop
proof (relation "measure (\<lambda>(current, end_date). nat (getTime end_date + 2 - daysBeforeMonthIndex (monthIndex current)))")
  show "wf (measure (\<lambda>(current, end_date). nat (getTime end_date + 2 - daysBeforeMonthIndex (monthIndex current))))"
    by simp
next
  fix current end_date
  assume "date_le current end_date"
  then have le: "daysBeforeMonthIndex (monthIndex current) - 1 \<le> getTime end_date"
    using getTime_lower[of current] by (simp add: date_le_def)
  have "daysBeforeMonthIndex (monthIndex current) + 28
          \<le> daysBeforeMonthIndex (monthIndex (addMonths current 1))"
    unfolding monthIndex_addMonths by (rule daysBeforeMonthIndex_less)
  with le show "((addMonths current 1, end_date), (current, end_date))
      \<in> measure (\<lambda>(current, end_date). nat (getTime end_date + 2 - daysBeforeMonthIndex (monthIndex current)))"
    by simp
qed

termination nextRenewalLoop
  by (relation "measure (\<lambda>(c, today, nextRenewal, loopCount). MAX_LOOPS - loopCount)") auto

declare monthsLoop.simps [simp del]
declare nextRenewalLoop.simps [simp del]


section \<open>Adding months\<close>

lemma monthIndex_valid:
  assumes "isValid d"
  shows "monthIndex d div 12 = year d" and "nat (monthIndex d mod 12) + 1 = month d"
proof -
  have m: "1 \<le> month d" "month d \<le> 12" using assms by (simp_all add: isValid_def)
  have e: "monthIndex d = 12 * year d + (int (month d) - 1)"
    by (simp add: monthIndex_def)
  have b: "0 \<le> int (month d) - 1" "int (month d) - 1 < 12" using m by linarith+
  show "monthIndex d div 12 = year d" using e b by (rule int_div_pos_eq)
  have "monthIndex d mod 12 = int (month d) - 1" using e b by (rule int_mod_pos_eq)
  then show "nat (monthIndex d mod 12) + 1 = month d" using m by simp
qed

lemma isValid_addMonths: "isValid d \<Longrightarrow> isValid (addMonths d n)"
proof (cases "n = 0")
  case True
  assume "isValid d" with True show ?thesis by (simp add: addMonths_def)
next
  case False
  assume v: "isValid d"
  define t where "t = monthIndex d + n"
  have r: "0 \<le> t mod 12" "t mod 12 < 12" by simp_all
  then have m: "nat (t mod 12) + 1 \<le> 12" by linarith
  have d1: "1 \<le> day d" using v by (simp add: isValid_def)
  have g: "1 \<le> daysInMonth (t div 12) (nat (t mod 12) + 1)"
    using daysInMonth_ge[of "t div 12" "nat (t mod 12) + 1"] by linarith
  show ?thesis
    using False m d1 g by (simp add: addMonths_def Let_def isValid_def t_def[symmetric])
qed

lemma daysBeforeMonthIndex_mono_nat:
  "daysBeforeMonthIndex t \<le> daysBeforeMonthIndex (t + int k)"
proof (induction k)
  case 0
  show ?case by simp
next
  case (Suc k)
  have e: "t + int (Suc k) = t + int k + 1" by simp
  have "daysBeforeMonthIndex (t + int k) \<le> daysBeforeMonthIndex (t + int k + 1)"
    using daysBeforeMonthIndex_less[of "t + int k"] by linarith
  with Suc show ?case unfolding e by linarith
qed

lemma daysBeforeMonthIndex_mono:
  assumes "s \<le> t"
  shows "daysBeforeMonthIndex s \<le> daysBeforeMonthIndex t"
proof -
  have "t = s + int (nat (t - s))" using assms by simp
  then show ?thesis using daysBeforeMonthIndex_mono_nat[of s "nat (t - s)"] by simp
qed

lemma day_addMonths_pos: "isValid d \<Longrightarrow> 1 \<le> day (addMonths d n)"
  using isValid_addMonths[of d n] by (simp add: isValid_def)

lemma getTime_addMonths_less:
  assumes v: "isValid d" and n: "1 \<le> n"
  shows "getTime d < getTime (addMonths d n)"
proof -
  have "daysInMonth (monthIndex d div 12) (nat (monthIndex d mod 12) + 1)
          = daysInMonth (year d) (month d)"
    by (simp only: monthIndex_valid[OF v])
  then have "int (day d) \<le> int (daysInMonth (monthIndex d div 12) (nat (monthIndex d mod 12) + 1))"
    using v by (simp add: isValid_def)
  then have "getTime d < daysBeforeMonthIndex (monthIndex d + 1)"
    unfolding getTime_def daysBeforeMonthIndex_step by linarith
  also have "\<dots> \<le> daysBeforeMonthIndex (monthIndex d + n)"
    using n by (intro daysBeforeMonthIndex_mono) simp
  also have "\<dots> \<le> getTime (addMonths d n)"
    using day_addMonths_pos[OF v, of n] by (simp add: getTime_def monthIndex_addMonths)
  finally show ?thesis .
qed

lemma isValid_addCycle: "isValid d \<Longrightarrow> isValid (addCycle c d)"
  by (simp add: addCycle_def isValid_addMonths)

lemma getTime_addCycle_less: "isValid d \<Longrightarrow> getTime d < getTime (addCycle c d)"
  by (simp add: addCycle_def getTime_addMonths_less)

lemma isValid_funpow_addCycle: "isValid d \<Longrightarrow> isValid ((addCycle c ^^ k) d)"
  by (induction k) (simp_all add: isValid_addCycle)

lemma getTime_funpow_addCycle_mono:
  assumes "isValid d" and "i \<le> j"
  shows "getTime ((addCycle c ^^ i) d) \<le> getTime ((addCycle c ^^ j) d)"
  using assms(2)
proof (induction j)
  case 0
  then show ?case by simp
next
  case (Suc j)
  show ?case
  proof (cases "i = Suc j")
    case True
    then show ?thesis by simp
  next
    case False
    with Suc.prems have "i \<le> j" by simp
    then have "getTime ((addCycle c ^^ i) d) \<le> getTime ((addCycle c ^^ j) d)" by (rule Suc.IH)
    also have "\<dots> < getTime ((addCycle c ^^ Suc j) d)"
      using getTime_addCycle_less[OF isValid_funpow_addCycle[OF assms(1), where c = c and k = j], where c = c] by simp
    finally show ?thesis by simp
  qed
qed

lemma getTime_bounds:
  assumes v: "isValid d"
  shows "daysBeforeMonthIndex (monthIndex d) \<le> getTime d"
    and "getTime d < daysBeforeMonthIndex (monthIndex d + 1)"
proof -
  have d1: "1 \<le> day d" and d2: "day d \<le> daysInMonth (year d) (month d)"
    using v by (simp_all add: isValid_def)
  show "daysBeforeMonthIndex (monthIndex d) \<le> getTime d"
    using d1 by (simp add: getTime_def)
  have "daysInMonth (monthIndex d div 12) (nat (monthIndex d mod 12) + 1)
          = daysInMonth (year d) (month d)"
    by (simp only: monthIndex_valid[OF v])
  then show "getTime d < daysBeforeMonthIndex (monthIndex d + 1)"
    unfolding getTime_def daysBeforeMonthIndex_step using d2 by linarith
qed

lemma monthIndex_less_iff:
  assumes "isValid a" and "isValid b"
  shows "monthIndex a < monthIndex b
           \<longleftrightarrow> year a < year b \<or> (year a = year b \<and> month a < month b)"
  using assms unfolding monthIndex_def isValid_def by auto

text \<open>
  On calendar days the order of the time stamps is the order of the calendar: first by
  year, then by month, then by day.
\<close>

lemma date_lt_calendar:
  assumes a: "isValid a" and b: "isValid b"
  shows "date_lt a b \<longleftrightarrow>
           year a < year b
           \<or> (year a = year b \<and> (month a < month b \<or> (month a = month b \<and> day a < day b)))"
proof -
  consider "monthIndex a < monthIndex b" | "monthIndex b < monthIndex a" | "monthIndex a = monthIndex b"
    by linarith
  then show ?thesis
  proof cases
    case 1
    then have "daysBeforeMonthIndex (monthIndex a + 1) \<le> daysBeforeMonthIndex (monthIndex b)"
      by (intro daysBeforeMonthIndex_mono) simp
    then have "getTime a < getTime b"
      using getTime_bounds(2)[OF a] getTime_bounds(1)[OF b] by linarith
    then show ?thesis using 1 monthIndex_less_iff[OF a b] by (auto simp add: date_lt_def)
  next
    case 2
    then have "daysBeforeMonthIndex (monthIndex b + 1) \<le> daysBeforeMonthIndex (monthIndex a)"
      by (intro daysBeforeMonthIndex_mono) simp
    then have "getTime b < getTime a"
      using getTime_bounds(2)[OF b] getTime_bounds(1)[OF a] by linarith
    then show ?thesis using 2 monthIndex_less_iff[OF b a] by (auto simp add: date_lt_def)
  next
    case 3
    then have ym: "year a = year b \<and> month a = month b"
      using monthIndex_valid[OF a] monthIndex_valid[OF b] by metis
    have "getTime a < getTime b \<longleftrightarrow> day a < day b"
      using 3 by (simp add: getTime_def)
    then show ?thesis using ym by (simp add: date_lt_def)
  qed
qed

section \<open>The renewal loop\<close>

lemma nextRenewalLoop_step:
  "date_le n t \<Longrightarrow> k < MAX_LOOPS \<Longrightarrow>
     nextRenewalLoop c t n k = nextRenewalLoop c t (addCycle c n) (k + 1)"
  by (simp add: nextRenewalLoop.simps[of c t n k])

lemma nextRenewalLoop_stop:
  "\<not> (date_le n t \<and> k < MAX_LOOPS) \<Longrightarrow> nextRenewalLoop c t n k = (n, k)"
  by (subst nextRenewalLoop.simps) (simp only: if_False)

lemma loopCount_ge: "k \<le> snd (nextRenewalLoop c t n k)"
proof (induction c t n k rule: nextRenewalLoop.induct)
  case (1 c t n k)
  show ?case
  proof (cases "date_le n t \<and> k < MAX_LOOPS")
    case True
    then show ?thesis using "1.IH" by (simp add: nextRenewalLoop_step)
  next
    case False
    then show ?thesis by (simp add: nextRenewalLoop_stop)
  qed
qed

lemma loopCount_le: "k \<le> MAX_LOOPS \<Longrightarrow> snd (nextRenewalLoop c t n k) \<le> MAX_LOOPS"
proof (induction c t n k rule: nextRenewalLoop.induct)
  case (1 c t n k)
  show ?case
  proof (cases "date_le n t \<and> k < MAX_LOOPS")
    case True
    then show ?thesis using "1.IH" by (simp add: nextRenewalLoop_step)
  next
    case False
    then show ?thesis using "1.prems" by (simp add: nextRenewalLoop_stop)
  qed
qed

lemma loop_result_funpow:
  "fst (nextRenewalLoop c t n k) = (addCycle c ^^ (snd (nextRenewalLoop c t n k) - k)) n"
proof (induction c t n k rule: nextRenewalLoop.induct)
  case (1 c t n k)
  show ?case
  proof (cases "date_le n t \<and> k < MAX_LOOPS")
    case True
    define m where "m = snd (nextRenewalLoop c t (addCycle c n) (k + 1))"
    have ge: "k + 1 \<le> m" unfolding m_def by (rule loopCount_ge)
    then have e: "m - k = Suc (m - (k + 1))" by simp
    have "fst (nextRenewalLoop c t n k) = (addCycle c ^^ (m - (k + 1))) (addCycle c n)"
      using True "1.IH" by (simp add: nextRenewalLoop_step m_def)
    also have "\<dots> = (addCycle c ^^ (m - k)) n"
      unfolding e by (simp add: funpow_swap1)
    finally show ?thesis using True by (simp add: nextRenewalLoop_step m_def)
  next
    case False
    then show ?thesis by (simp add: nextRenewalLoop_stop)
  qed
qed

lemma loop_exit:
  "MAX_LOOPS \<le> snd (nextRenewalLoop c t n k) \<or> date_lt t (fst (nextRenewalLoop c t n k))"
proof (induction c t n k rule: nextRenewalLoop.induct)
  case (1 c t n k)
  show ?case
  proof (cases "date_le n t \<and> k < MAX_LOOPS")
    case True
    then show ?thesis using "1.IH" by (simp add: nextRenewalLoop_step)
  next
    case False
    then show ?thesis by (auto simp add: nextRenewalLoop_stop date_le_def date_lt_def)
  qed
qed

lemma loop_prefix:
  "j < snd (nextRenewalLoop c t n k) - k \<Longrightarrow> date_le ((addCycle c ^^ j) n) t"
proof (induction c t n k arbitrary: j rule: nextRenewalLoop.induct)
  case (1 c t n k)
  show ?case
  proof (cases "date_le n t \<and> k < MAX_LOOPS")
    case True
    show ?thesis
    proof (cases j)
      case 0
      then show ?thesis using True by simp
    next
      case (Suc i)
      have "i < snd (nextRenewalLoop c t (addCycle c n) (k + 1)) - (k + 1)"
        using "1.prems" True Suc by (simp add: nextRenewalLoop_step)
      then have "date_le ((addCycle c ^^ i) (addCycle c n)) t"
        using True by (intro "1.IH") simp_all
      then show ?thesis using Suc by (simp add: funpow_swap1)
    qed
  next
    case False
    then show ?thesis using "1.prems" by (simp add: nextRenewalLoop_stop)
  qed
qed

lemma loop_ge_start:
  "isValid n \<Longrightarrow> getTime n \<le> getTime (fst (nextRenewalLoop c t n k))"
  unfolding loop_result_funpow[of c t n k]
  using getTime_funpow_addCycle_mono[of n 0 "snd (nextRenewalLoop c t n k) - k" c] by simp

lemma loop_mono:
  "isValid n \<Longrightarrow> date_le t1 t2 \<Longrightarrow>
     getTime (fst (nextRenewalLoop c t1 n k)) \<le> getTime (fst (nextRenewalLoop c t2 n k))"
proof (induction c t1 n k rule: nextRenewalLoop.induct)
  case (1 c t1 n k)
  show ?case
  proof (cases "date_le n t1 \<and> k < MAX_LOOPS")
    case True
    then have "date_le n t2 \<and> k < MAX_LOOPS"
      using "1.prems"(2) by (simp add: date_le_def)
    then show ?thesis
      using True "1.IH" "1.prems" by (simp add: nextRenewalLoop_step isValid_addCycle)
  next
    case False
    then show ?thesis
      using loop_ge_start[OF "1.prems"(1), of c t2 k] by (simp add: nextRenewalLoop_stop)
  qed
qed

section \<open>Positions and widths\<close>







lemma getTime_effectiveStart: "getTime (effectiveStart s ws) = max (getTime s) (getTime ws)"
  by (simp add: effectiveStart_def date_lt_def)

lemma getTime_effectiveEnd:
  "getTime (effectiveEnd e we) = (case e of None \<Rightarrow> getTime we | Some x \<Rightarrow> min (getTime x) (getTime we))"
  by (simp add: effectiveEnd_def date_lt_def split: option.splits)









section \<open>Evaluation of concrete inputs\<close>

lemmas date_eval = D_def getTime_def monthIndex_def daysBeforeMonthIndex_def daysBeforeMonth_def
  daysBeforeYear_def isLeapYear_def date_lt_def date_le_def differenceInDays_def

lemmas bar_eval = splitBar_def barStartPct_def barEndPct_def splitPct_def hasActive_def hasFuture_def
  visualWidth_def visualEndDate_def solidEndPct_def solidEndDate_def getPositionPercentage_def
  getWidthPercentage_def effectiveStart_def effectiveEnd_def renderBar_def rendered_def


section \<open>The timeline range\<close>

lemma monthsLoop_empty: "date_lt e s \<Longrightarrow> monthsLoop s e = []"
  by (simp add: monthsLoop.simps[of s e] date_lt_def date_le_def)

text \<open>
  Claim C9. Called with no arguments when the clock reads 2024-05-15, \<open>getTimelineRange\<close>
  returns the start 2024-04-01 (the first day of the month before the current one), the
  end 2025-06-01 (the first day of the month thirteen months later) and exactly fifteen
  months, each the first day of a month; the \<open>i\<close>-th of them is the start advanced by
  \<open>i\<close> calendar months, so they increase by one month from the start to the end
  inclusive.
\<close>

theorem getTimelineRange_default_2024_05_15:
  "getTimelineRange (D 2024 5 15) None None =
     Inr \<lparr>range_start = D 2024 4 1, range_end = D 2025 6 1,
          range_months =
            [D 2024 4 1, D 2024 5 1, D 2024 6 1, D 2024 7 1, D 2024 8 1, D 2024 9 1,
             D 2024 10 1, D 2024 11 1, D 2024 12 1, D 2025 1 1, D 2025 2 1, D 2025 3 1,
             D 2025 4 1, D 2025 5 1, D 2025 6 1]\<rparr>
   \<and> [D 2024 4 1, D 2024 5 1, D 2024 6 1, D 2024 7 1, D 2024 8 1, D 2024 9 1,
      D 2024 10 1, D 2024 11 1, D 2024 12 1, D 2025 1 1, D 2025 2 1, D 2025 3 1,
      D 2025 4 1, D 2025 5 1, D 2025 6 1]
     = map (\<lambda>i. addMonths (D 2024 4 1) (int i)) [0..<15]"
  by code_simp

text \<open>
  Claim C10. When both dates are given and the normalized (first-of-month) end precedes
  the normalized start, \<open>getTimelineRange\<close> returns normally: the two normalized dates,
  unchanged, and an empty list of months, the month loop running zero times.
\<close>

theorem getTimelineRange_inverted_empty:
  "date_lt (startOfMonth e) (startOfMonth s) \<Longrightarrow>
     getTimelineRange now (Some s) (Some e) =
       Inr \<lparr>range_start = startOfMonth s, range_end = startOfMonth e, range_months = []\<rparr>"
  by (simp add: getTimelineRange_def monthsLoop_empty)

theorem getTimelineRange_inverted_empty_witness:
  "date_lt (startOfMonth (D 2024 3 20)) (startOfMonth (D 2024 5 10)) \<and>
   getTimelineRange (D 2024 5 15) (Some (D 2024 5 10)) (Some (D 2024 3 20)) =
     Inr \<lparr>range_start = D 2024 5 1, range_end = D 2024 3 1, range_months = []\<rparr>"
proof -
  have h: "date_lt (startOfMonth (D 2024 3 20)) (startOfMonth (D 2024 5 10))"
    by code_simp
  show ?thesis
    using h getTimelineRange_inverted_empty[OF h, of "D 2024 5 15"]
    by (simp add: startOfMonth_def D_def)
qed


text \<open>
  Claim C5, as amended. \<open>getTimelineRange\<close> never fails with \<open>InvalidRangeError\<close>: it
  returns normally for every input. A window whose end precedes its start is refused
  earlier, by the handler of the date range form: when the new end is before the new
  start it alerts and returns without saving, so that every range it saves has, after
  the normalization to the first of the month, an end that is not before its start.
\<close>

theorem invalid_range_rejected_by_form:
  "getTimelineRange now customStart customEnd \<noteq> Inl InvalidRangeError
   \<and> (date_lt (D ye me 1) (D ys ms 1) \<longrightarrow>
         handleSubmit (Some (ys, ms)) (Some (ye, me)) = Alerted)
   \<and> (handleSubmit startStr endStr = Saved newStart newEnd \<longrightarrow>
         \<not> date_lt (startOfMonth newEnd) (startOfMonth newStart))"
proof (intro conjI impI)
  show "getTimelineRange now customStart customEnd \<noteq> Inl InvalidRangeError"
    by (simp add: getTimelineRange_def Let_def)
next
  assume "date_lt (D ye me 1) (D ys ms 1)"
  then show "handleSubmit (Some (ys, ms)) (Some (ye, me)) = Alerted"
    by (simp add: handleSubmit_def)
next
  assume "handleSubmit startStr endStr = Saved newStart newEnd"
  then show "\<not> date_lt (startOfMonth newEnd) (startOfMonth newStart)"
    by (auto simp add: handleSubmit_def Let_def startOfMonth_def D_def
        split: option.splits prod.splits if_splits)
qed

theorem invalid_range_rejected_by_form_witness:
  "getTimelineRange (D 2024 5 15) (Some (D 2024 7 9)) (Some (D 2024 2 28)) \<noteq> Inl InvalidRangeError
   \<and> date_lt (D 2024 2 1) (D 2024 7 1)
   \<and> handleSubmit (Some (2024, 7)) (Some (2024, 2)) = Alerted
   \<and> handleSubmit (Some (2024, 1)) (Some (2025, 3)) = Saved (D 2024 1 1) (D 2025 3 1)
   \<and> \<not> date_lt (startOfMonth (D 2025 3 1)) (startOfMonth (D 2024 1 1))"
proof -
  have lt: "date_lt (D 2024 2 1) (D 2024 7 1)"
    by (simp add: date_eval)
  have sv: "handleSubmit (Some (2024, 1)) (Some (2025, 3)) = Saved (D 2024 1 1) (D 2025 3 1)"
    by (simp add: handleSubmit_def date_eval)
  show ?thesis
    using lt sv
      invalid_range_rejected_by_form[of "D 2024 5 15" "Some (D 2024 7 9)" "Some (D 2024 2 28)"
        2024 2 2024 7 "Some (2024, 1)" "Some (2025, 3)" "D 2024 1 1" "D 2025 3 1"]
    by blast
qed

text \<open>
  The claim as stated fails: for the start 2024-07-09 and the end 2024-02-28, whose
  normalized end 2024-02-01 precedes the normalized start 2024-07-01, the function does
  not fail; it returns the two normalized dates and no months.
\<close>

theorem getTimelineRange_inverted_no_error:
  "date_lt (startOfMonth (D 2024 2 28)) (startOfMonth (D 2024 7 9))
   \<and> getTimelineRange (D 2024 5 15) (Some (D 2024 7 9)) (Some (D 2024 2 28))
       = Inr \<lparr>range_start = D 2024 7 1, range_end = D 2024 2 1, range_months = []\<rparr>
   \<and> getTimelineRange (D 2024 5 15) (Some (D 2024 7 9)) (Some (D 2024 2 28))
       \<noteq> Inl InvalidRangeError"
  by code_simp

section \<open>Renewal projection\<close>

lemma addMonths_small_day:
  assumes v: "isValid d" and s: "day d \<le> 28"
  shows "addMonths d n =
     \<lparr>year = (monthIndex d + n) div 12, month = nat ((monthIndex d + n) mod 12) + 1, day = day d\<rparr>"
proof (cases "n = 0")
  case True
  then show ?thesis using monthIndex_valid[OF v] by (simp add: addMonths_def)
next
  case False
  have "day d \<le> daysInMonth ((monthIndex d + n) div 12) (nat ((monthIndex d + n) mod 12) + 1)"
    using s daysInMonth_ge[of "(monthIndex d + n) div 12" "nat ((monthIndex d + n) mod 12) + 1"]
    by linarith
  then show ?thesis using False by (auto simp add: addMonths_def Let_def)
qed

lemma funpow_addCycle_monthly:
  assumes v: "isValid d" and s: "day d \<le> 28"
  shows "(addCycle MONTHLY ^^ k) d = addMonths d (int k)"
proof (induction k)
  case 0
  show ?case by (simp add: addMonths_def)
next
  case (Suc k)
  have v': "isValid (addMonths d (int k))" using v by (rule isValid_addMonths)
  have s': "day (addMonths d (int k)) \<le> 28"
    using s by (simp add: addMonths_small_day[OF v s])
  have "(addCycle MONTHLY ^^ Suc k) d = addCycle MONTHLY ((addCycle MONTHLY ^^ k) d)"
    by simp
  also have "\<dots> = addCycle MONTHLY (addMonths d (int k))"
    by (simp only: Suc)
  also have "\<dots> = addMonths (addMonths d (int k)) 1"
    by (simp add: addCycle_def)
  also have "\<dots> = addMonths d (int (Suc k))"
    unfolding addMonths_small_day[OF v' s'] monthIndex_addMonths
    by (simp add: addMonths_small_day[OF v s] add.commute add.left_commute)
  finally show ?case .
qed

text \<open>
  Claim C4. The stepping loop runs at most \<open>MAX_LOOPS = 1000\<close> times (the function is
  total: its termination is proved from the loop counter), and what it returns is the
  value computed by its last iteration, that is, the start advanced by as many cycle
  periods as iterations were made. It stops either at the cap or with a date after
  \<open>today\<close>. When the cap is reached, the start being valid and even the 1000th date not
  after \<open>today\<close>, the loop returns that 1000th date, and so does \<open>nextRenewal\<close>.
\<close>

theorem nextRenewalLoop_bounded:
  "snd (nextRenewalLoop c today start 0) \<le> MAX_LOOPS
   \<and> MAX_LOOPS = 1000
   \<and> fst (nextRenewalLoop c today start 0)
       = (addCycle c ^^ snd (nextRenewalLoop c today start 0)) start
   \<and> (snd (nextRenewalLoop c today start 0) = MAX_LOOPS
        \<or> date_lt today (fst (nextRenewalLoop c today start 0)))
   \<and> (isValid start \<and> date_le ((addCycle c ^^ MAX_LOOPS) start) today \<longrightarrow>
         nextRenewalLoop c today start 0 = ((addCycle c ^^ MAX_LOOPS) start, MAX_LOOPS)
         \<and> nextRenewal start c today = (addCycle c ^^ MAX_LOOPS) start)"
proof -
  define L where "L = nextRenewalLoop c today start 0"
  have a: "snd L \<le> MAX_LOOPS"
    unfolding L_def by (rule loopCount_le) simp
  have b: "fst L = (addCycle c ^^ snd L) start"
    using loop_result_funpow[of c today start 0] by (simp add: L_def)
  have e: "snd L = MAX_LOOPS \<or> date_lt today (fst L)"
    using loop_exit[of c today start 0] a by (auto simp: L_def)
  have cap: "L = ((addCycle c ^^ MAX_LOOPS) start, MAX_LOOPS)
         \<and> nextRenewal start c today = (addCycle c ^^ MAX_LOOPS) start"
    if h: "isValid start \<and> date_le ((addCycle c ^^ MAX_LOOPS) start) today"
  proof -
    have v: "isValid start" using h by simp
    have "getTime (fst L) \<le> getTime ((addCycle c ^^ MAX_LOOPS) start)"
      unfolding b using v a by (rule getTime_funpow_addCycle_mono)
    then have "\<not> date_lt today (fst L)" using h by (simp add: date_le_def date_lt_def)
    with e have n: "snd L = MAX_LOOPS" by simp
    then have f: "fst L = (addCycle c ^^ MAX_LOOPS) start" using b by simp
    have "getTime start \<le> getTime ((addCycle c ^^ MAX_LOOPS) start)"
      using getTime_funpow_addCycle_mono[OF v, of 0 MAX_LOOPS c] by simp
    then have "date_le start today" using h by (simp add: date_le_def)
    then have "nextRenewal start c today = fst L" using v by (simp add: nextRenewal_def L_def)
    with n f show ?thesis by (simp add: prod_eq_iff)
  qed
  show ?thesis using a b e cap by (simp add: MAX_LOOPS_def L_def)
qed

theorem nextRenewalLoop_bounded_witness:
  "isValid (D 2024 6 1)
   \<and> date_le ((addCycle MONTHLY ^^ MAX_LOOPS) (D 2024 6 1)) (D 2200 1 1)
   \<and> nextRenewalLoop MONTHLY (D 2200 1 1) (D 2024 6 1) 0 = (D 2107 10 1, MAX_LOOPS)
   \<and> nextRenewal (D 2024 6 1) MONTHLY (D 2200 1 1) = D 2107 10 1
   \<and> date_le (D 2107 10 1) (D 2200 1 1)
   \<and> MAX_LOOPS = 1000"
proof -
  have v: "isValid (D 2024 6 1)"
    by (simp add: isValid_def D_def daysInMonth_def)
  have s: "day (D 2024 6 1) \<le> 28" by (simp add: D_def)
  have i: "(addCycle MONTHLY ^^ MAX_LOOPS) (D 2024 6 1) = D 2107 10 1"
    unfolding funpow_addCycle_monthly[OF v s]
    by (simp add: MAX_LOOPS_def addMonths_def monthIndex_def D_def daysInMonth_def Let_def)
  have d: "date_le (D 2107 10 1) (D 2200 1 1)"
    by (simp add: date_eval)
  then have h: "date_le ((addCycle MONTHLY ^^ MAX_LOOPS) (D 2024 6 1)) (D 2200 1 1)"
    by (simp only: i)
  have r: "nextRenewalLoop MONTHLY (D 2200 1 1) (D 2024 6 1) 0
             = ((addCycle MONTHLY ^^ MAX_LOOPS) (D 2024 6 1), MAX_LOOPS)
           \<and> nextRenewal (D 2024 6 1) MONTHLY (D 2200 1 1)
             = (addCycle MONTHLY ^^ MAX_LOOPS) (D 2024 6 1)"
    using nextRenewalLoop_bounded[of MONTHLY "D 2200 1 1" "D 2024 6 1"] v h by blast
  have m: "MAX_LOOPS = 1000" by (simp add: MAX_LOOPS_def)
  show ?thesis using v h d m r by (simp only: i simp_thms)
qed

text \<open>
  Claim C2. For a valid start date: when the start is not after the reference date and
  the cap does not cut the loop short (one of the first \<open>MAX_LOOPS\<close> steps passes the
  reference date), \<open>nextRenewal\<close> is the first date strictly after the reference date
  among the dates obtained from the start by repeatedly adding one cycle period; when the
  start is after the reference date, it is the start advanced by exactly one cycle
  period. A cycle period is one calendar month for \<open>MONTHLY\<close> and twelve for \<open>YEARLY\<close>.
\<close>

theorem nextRenewal_first_exceeding:
  assumes "isValid start"
  shows "addCycle MONTHLY start = addMonths start 1
       \<and> addCycle YEARLY start = addMonths start 12
       \<and> (date_le start ref \<and> (\<exists>k\<le>MAX_LOOPS. date_lt ref ((addCycle c ^^ k) start)) \<longrightarrow>
            (\<exists>k. nextRenewal start c ref = (addCycle c ^^ k) start
                 \<and> date_lt ref (nextRenewal start c ref)
                 \<and> (\<forall>j<k. date_le ((addCycle c ^^ j) start) ref)))
       \<and> (date_lt ref start \<longrightarrow> nextRenewal start c ref = addCycle c start)"
proof (intro conjI impI)
  show "addCycle MONTHLY start = addMonths start 1" by (simp add: addCycle_def)
next
  show "addCycle YEARLY start = addMonths start 12" by (simp add: addCycle_def)
next
  assume h: "date_le start ref \<and> (\<exists>k\<le>MAX_LOOPS. date_lt ref ((addCycle c ^^ k) start))"
  define L where "L = nextRenewalLoop c ref start 0"
  have r: "nextRenewal start c ref = fst L"
    using assms h by (simp add: nextRenewal_def L_def)
  have f: "fst L = (addCycle c ^^ snd L) start"
    using loop_result_funpow[of c ref start 0] by (simp add: L_def)
  have p: "\<forall>j<snd L. date_le ((addCycle c ^^ j) start) ref"
    using loop_prefix[of _ c ref start 0] by (simp add: L_def)
  have le: "snd L \<le> MAX_LOOPS" unfolding L_def by (rule loopCount_le) simp
  have ex: "date_lt ref (fst L)"
  proof (rule ccontr)
    assume n: "\<not> date_lt ref (fst L)"
    then have cap: "snd L = MAX_LOOPS"
      using loop_exit[of c ref start 0] le by (auto simp: L_def)
    from h obtain k where k: "k \<le> MAX_LOOPS" "date_lt ref ((addCycle c ^^ k) start)" by blast
    show False
    proof (cases "k < MAX_LOOPS")
      case True
      then have "date_le ((addCycle c ^^ k) start) ref" using p cap by simp
      with k(2) show False by (simp add: date_le_def date_lt_def)
    next
      case False
      with k(1) have "k = snd L" using cap by simp
      with k(2) n f show False by simp
    qed
  qed
  show "\<exists>k. nextRenewal start c ref = (addCycle c ^^ k) start
                 \<and> date_lt ref (nextRenewal start c ref)
                 \<and> (\<forall>j<k. date_le ((addCycle c ^^ j) start) ref)"
    using r f p ex by (intro exI[of _ "snd L"]) simp
next
  assume "date_lt ref start"
  then show "nextRenewal start c ref = addCycle c start"
    using assms by (simp add: nextRenewal_def date_le_def date_lt_def)
qed

theorem nextRenewal_first_exceeding_witness:
  "isValid (D 2024 6 1)
   \<and> date_le (D 2024 6 1) (D 2024 8 15)
   \<and> (\<exists>k\<le>MAX_LOOPS. date_lt (D 2024 8 15) ((addCycle MONTHLY ^^ k) (D 2024 6 1)))
   \<and> (\<exists>k. nextRenewal (D 2024 6 1) MONTHLY (D 2024 8 15) = (addCycle MONTHLY ^^ k) (D 2024 6 1)
          \<and> date_lt (D 2024 8 15) (nextRenewal (D 2024 6 1) MONTHLY (D 2024 8 15))
          \<and> (\<forall>j<k. date_le ((addCycle MONTHLY ^^ j) (D 2024 6 1)) (D 2024 8 15)))
   \<and> nextRenewal (D 2024 6 1) MONTHLY (D 2024 8 15) = D 2024 9 1
   \<and> date_lt (D 2024 5 20) (D 2024 6 1)
   \<and> nextRenewal (D 2024 6 1) MONTHLY (D 2024 5 20) = addCycle MONTHLY (D 2024 6 1)
   \<and> addCycle MONTHLY (D 2024 6 1) = D 2024 7 1"
proof -
  have v: "isValid (D 2024 6 1)"
    by (simp add: isValid_def D_def daysInMonth_def)
  have le: "date_le (D 2024 6 1) (D 2024 8 15)"
    by (simp add: date_eval)
  have "3 \<le> MAX_LOOPS \<and> date_lt (D 2024 8 15) ((addCycle MONTHLY ^^ 3) (D 2024 6 1))"
    by code_simp
  then have ex: "\<exists>k\<le>MAX_LOOPS. date_lt (D 2024 8 15) ((addCycle MONTHLY ^^ k) (D 2024 6 1))"
    by blast
  have lt: "date_lt (D 2024 5 20) (D 2024 6 1)"
    by (simp add: date_eval)
  have r: "nextRenewal (D 2024 6 1) MONTHLY (D 2024 8 15) = D 2024 9 1"
    by code_simp
  have a: "addCycle MONTHLY (D 2024 6 1) = D 2024 7 1"
    by code_simp
  show ?thesis
    using v le ex lt r a
      nextRenewal_first_exceeding[OF v, of "D 2024 8 15" MONTHLY]
      nextRenewal_first_exceeding[OF v, of "D 2024 5 20" MONTHLY]
    by blast
qed

text \<open>
  Claim C8. For a fixed valid start date and cycle, \<open>nextRenewal\<close> is monotone in the
  reference date: a later reference date never gives an earlier result. This holds across
  the boundary between the two branches (reference date before the start, or not) and
  also when the cap cuts the loop short.
\<close>

theorem nextRenewal_mono:
  assumes v: "isValid start" and le: "date_le ref1 ref2"
  shows "date_le (nextRenewal start c ref1) (nextRenewal start c ref2)"
proof (cases "date_le start ref1")
  case True
  then have "date_le start ref2" using le by (simp add: date_le_def)
  with True show ?thesis
    using loop_mono[OF v le, of c 0] v by (simp add: nextRenewal_def date_le_def)
next
  case False
  show ?thesis
  proof (cases "date_le start ref2")
    case True
    have "nextRenewalLoop c ref2 start 0 = nextRenewalLoop c ref2 (addCycle c start) (0 + 1)"
      using True by (intro nextRenewalLoop_step) (simp_all add: MAX_LOOPS_def)
    then have "getTime (addCycle c start) \<le> getTime (fst (nextRenewalLoop c ref2 start 0))"
      using loop_ge_start[OF isValid_addCycle[OF v], of c c ref2 "0 + 1"] by simp
    then show ?thesis
      using v True False by (simp add: nextRenewal_def date_le_def)
  next
    case F2: False
    with False v show ?thesis by (simp add: nextRenewal_def date_le_def)
  qed
qed

theorem nextRenewal_mono_witness:
  "isValid (D 2024 6 1)
   \<and> date_le (D 2024 5 20) (D 2024 8 15)
   \<and> date_le (nextRenewal (D 2024 6 1) MONTHLY (D 2024 5 20))
        (nextRenewal (D 2024 6 1) MONTHLY (D 2024 8 15))
   \<and> nextRenewal (D 2024 6 1) MONTHLY (D 2024 5 20) = D 2024 7 1
   \<and> nextRenewal (D 2024 6 1) MONTHLY (D 2024 8 15) = D 2024 9 1"
proof -
  have v: "isValid (D 2024 6 1)"
    by (simp add: isValid_def D_def daysInMonth_def)
  have le: "date_le (D 2024 5 20) (D 2024 8 15)"
    by (simp add: date_eval)
  have r1: "nextRenewal (D 2024 6 1) MONTHLY (D 2024 5 20) = D 2024 7 1"
    by code_simp
  have r2: "nextRenewal (D 2024 6 1) MONTHLY (D 2024 8 15) = D 2024 9 1"
    by code_simp
  show ?thesis
    using v le r1 r2 nextRenewal_mono[OF v le, of MONTHLY] by simp
qed

section \<open>Bar geometry\<close>

lemma getTime_date_max: "getTime (date_max a b) = max (getTime a) (getTime b)"
  by (simp add: date_max_def date_lt_def)

lemma getTime_date_min: "getTime (date_min a b) = min (getTime a) (getTime b)"
  by (simp add: date_min_def date_lt_def)

lemma getWidthPercentage_widthOf: "getWidthPercentage s e ws we T = widthOf s e ws we T"
proof -
  have a: "getTime (effectiveStart s ws) = getTime (date_max s ws)"
    by (simp add: getTime_effectiveStart getTime_date_max)
  have b: "getTime (effectiveEnd e we) = getTime (date_min (case e of None \<Rightarrow> we | Some x \<Rightarrow> x) we)"
    by (simp add: getTime_effectiveEnd getTime_date_min split: option.splits)
  show ?thesis
    unfolding getWidthPercentage_def widthOf_def Let_def date_lt_def differenceInDays_def a b ..
qed

text \<open>
  Claim C6. For a positive number of window days, \<open>getWidthPercentage\<close> is the
  specification's \<open>widthOf\<close>: 0 when \<open>min(end ?? windowEnd, windowEnd)\<close> is before
  \<open>max(start, windowStart)\<close>, and otherwise the number of days between the two plus one,
  divided by the window days, times 100. Consequently an interval of a single day inside
  the window has the width of one day, which is not zero.
\<close>

theorem getWidthPercentage_spec:
  "0 < T \<Longrightarrow>
     getWidthPercentage s e ws we T = widthOf s e ws we T
     \<and> (date_le ws d \<and> date_le d we \<longrightarrow>
          getWidthPercentage d (Some d) ws we T = 100 / real_of_int T
          \<and> 0 < getWidthPercentage d (Some d) ws we T)"
proof (intro conjI impI)
  show "getWidthPercentage s e ws we T = widthOf s e ws we T"
    by (rule getWidthPercentage_widthOf)
next
  assume T: "0 < T" and h: "date_le ws d \<and> date_le d we"
  then show w: "getWidthPercentage d (Some d) ws we T = 100 / real_of_int T"
    by (simp add: getWidthPercentage_def Let_def effectiveStart_def effectiveEnd_def
        date_lt_def date_le_def differenceInDays_def)
  show "0 < getWidthPercentage d (Some d) ws we T"
    unfolding w using T by simp
qed

theorem getWidthPercentage_spec_witness:
  "(0::int) < 425
   \<and> getWidthPercentage (D 2024 6 1) (Some (D 2024 12 1)) (D 2024 1 1) (D 2025 3 1) 425
       = widthOf (D 2024 6 1) (Some (D 2024 12 1)) (D 2024 1 1) (D 2025 3 1) 425
   \<and> date_le (D 2024 1 1) (D 2024 6 1) \<and> date_le (D 2024 6 1) (D 2025 3 1)
   \<and> getWidthPercentage (D 2024 6 1) (Some (D 2024 6 1)) (D 2024 1 1) (D 2025 3 1) 425 = 4 / 17
   \<and> 0 < getWidthPercentage (D 2024 6 1) (Some (D 2024 6 1)) (D 2024 1 1) (D 2025 3 1) 425"
proof -
  have h: "date_le (D 2024 1 1) (D 2024 6 1) \<and> date_le (D 2024 6 1) (D 2025 3 1)"
    by (simp add: date_eval)
  show ?thesis
    using h getWidthPercentage_spec[of 425 "D 2024 6 1" "Some (D 2024 12 1)" "D 2024 1 1" "D 2025 3 1" "D 2024 6 1"]
    by simp
qed

text \<open>
  Claim C3. For a window whose number of days is not zero, the row computes: the visual
  end as the window end when \<open>autoRenew\<close> is set, else the later of the next renewal and
  the window end when there is no end date, else the end date; the solid end as the end
  date when present, else the next renewal from the start date, the cycle and today; the
  bar start as the position of the start date; the bar end as the bar start plus the
  width from the start date to the visual end; the split point as the smaller of the
  position of the solid end and the bar end; and it renders its bars from these values.
\<close>

theorem splitBar_geometry:
  "totalDays \<noteq> 0 \<Longrightarrow>
   visualEndDate sub end_date today =
     Some (if autoRenew sub then end_date
           else case endDate sub of
                  None \<Rightarrow> date_max (nextRenewal (startDate sub) (cycle sub) today) end_date
                | Some e \<Rightarrow> e)
   \<and> solidEndDate sub today =
       (case endDate sub of Some e \<Rightarrow> e | None \<Rightarrow> nextRenewal (startDate sub) (cycle sub) today)
   \<and> barStartPct sub start totalDays = getPositionPercentage (startDate sub) start totalDays
   \<and> barEndPct sub start end_date totalDays today =
       barStartPct sub start totalDays
         + getWidthPercentage (startDate sub) (visualEndDate sub end_date today) start end_date totalDays
   \<and> splitPct sub start end_date totalDays today =
       min (getPositionPercentage (solidEndDate sub today) start totalDays)
           (barEndPct sub start end_date totalDays today)
   \<and> splitBar sub start end_date totalDays today =
       rendered (renderBar (hasActive sub start end_date totalDays today)
                   (hasFuture sub start end_date totalDays today)
                   (barStartPct sub start totalDays) (splitPct sub start end_date totalDays today) Active)
       @ rendered (renderBar (hasActive sub start end_date totalDays today)
                   (hasFuture sub start end_date totalDays today)
                   (splitPct sub start end_date totalDays today)
                   (barEndPct sub start end_date totalDays today) Future)"
proof (intro conjI)
  show "visualEndDate sub end_date today =
     Some (if autoRenew sub then end_date
           else case endDate sub of
                  None \<Rightarrow> date_max (nextRenewal (startDate sub) (cycle sub) today) end_date
                | Some e \<Rightarrow> e)"
    by (simp add: visualEndDate_def date_max_def Let_def split: option.splits)
qed (simp_all add: solidEndDate_def barStartPct_def barEndPct_def visualWidth_def splitPct_def
      solidEndPct_def splitBar_def Let_def)

theorem splitBar_geometry_witness:
  "(425::int) \<noteq> 0
   \<and> visualEndDate \<lparr>cycle = MONTHLY, startDate = D 2024 6 1, endDate = None, autoRenew = True\<rparr>
        (D 2025 3 1) (D 2024 8 15) = Some (D 2025 3 1)
   \<and> solidEndDate \<lparr>cycle = MONTHLY, startDate = D 2024 6 1, endDate = None, autoRenew = True\<rparr>
        (D 2024 8 15) = D 2024 9 1
   \<and> barStartPct \<lparr>cycle = MONTHLY, startDate = D 2024 6 1, endDate = None, autoRenew = True\<rparr>
        (D 2024 1 1) 425 = 608 / 17
   \<and> barEndPct \<lparr>cycle = MONTHLY, startDate = D 2024 6 1, endDate = None, autoRenew = True\<rparr>
        (D 2024 1 1) (D 2025 3 1) 425 (D 2024 8 15) = 1704 / 17
   \<and> splitPct \<lparr>cycle = MONTHLY, startDate = D 2024 6 1, endDate = None, autoRenew = True\<rparr>
        (D 2024 1 1) (D 2025 3 1) 425 (D 2024 8 15) = 976 / 17"
proof -
  define sub where
    "sub = \<lparr>cycle = MONTHLY, startDate = D 2024 6 1, endDate = None, autoRenew = True\<rparr>"
  have n: "nextRenewal (D 2024 6 1) MONTHLY (D 2024 8 15) = D 2024 9 1"
    by code_simp
  have t: "(425::int) \<noteq> 0" by simp
  note g = splitBar_geometry[OF t, of sub "D 2025 3 1" "D 2024 8 15" "D 2024 1 1"]
  note g1 = g[THEN conjunct1]
  note g2 = g[THEN conjunct2, THEN conjunct1]
  note g3 = g[THEN conjunct2, THEN conjunct2, THEN conjunct1]
  note g4 = g[THEN conjunct2, THEN conjunct2, THEN conjunct2, THEN conjunct1]
  note g5 = g[THEN conjunct2, THEN conjunct2, THEN conjunct2, THEN conjunct2, THEN conjunct1]
  have ve: "visualEndDate sub (D 2025 3 1) (D 2024 8 15) = Some (D 2025 3 1)"
    unfolding g1 by (simp add: sub_def)
  have se: "solidEndDate sub (D 2024 8 15) = D 2024 9 1"
    unfolding g2 using n by (simp add: sub_def)
  have bs: "barStartPct sub (D 2024 1 1) 425 = 608 / 17"
    unfolding g3 by (simp add: sub_def getPositionPercentage_def date_eval)
  have w: "getWidthPercentage (D 2024 6 1) (Some (D 2025 3 1)) (D 2024 1 1) (D 2025 3 1) 425 = 1096 / 17"
    by (simp add: getWidthPercentage_def effectiveStart_def effectiveEnd_def date_eval)
  have be: "barEndPct sub (D 2024 1 1) (D 2025 3 1) 425 (D 2024 8 15) = 1704 / 17"
    unfolding g4 ve bs using w by (simp add: sub_def)
  have p: "getPositionPercentage (D 2024 9 1) (D 2024 1 1) 425 = 976 / 17"
    by (simp add: getPositionPercentage_def date_eval)
  have sp: "splitPct sub (D 2024 1 1) (D 2025 3 1) 425 (D 2024 8 15) = 976 / 17"
    unfolding g5 se be p by simp
  show ?thesis using ve se bs be sp unfolding sub_def by simp
qed




text \<open>
  Claim C1 (a defect of the code). The failing input is a subscription without
  auto-renewal whose end date lies inside the window: start 2024-06-01, end 2024-12-01,
  yearly, in the window 2024-01-01 to 2025-03-01 of 425 days. For every \<open>today\<close> the row
  renders two bars, not one: the active bar, which ends at the position of the end date,
  and after it a future bar one day wide, although \<open>hasFuture\<close> is false. The source
  computes \<open>hasFuture\<close> and says in its comment that the future bar is drawn only under
  auto-renewal, but calls \<open>renderBar\<close> for it without consulting \<open>hasFuture\<close>.
\<close>

theorem splitBar_future_without_autoRenew:
  "differenceInDays (D 2025 3 1) (D 2024 1 1) = 425
   \<and> hasFuture \<lparr>cycle = YEARLY, startDate = D 2024 6 1, endDate = Some (D 2024 12 1),
                 autoRenew = False\<rparr> (D 2024 1 1) (D 2025 3 1) 425 today = False
   \<and> getPositionPercentage (D 2024 12 1) (D 2024 1 1) 425 = 1340 / 17
   \<and> splitBar \<lparr>cycle = YEARLY, startDate = D 2024 6 1, endDate = Some (D 2024 12 1),
                autoRenew = False\<rparr> (D 2024 1 1) (D 2025 3 1) 425 today
      = [\<lparr>segLeft = 608 / 17, segWidth = 732 / 17, segType = Active, flatLeft = False,
           flatRight = False\<rparr>,
         \<lparr>segLeft = 1340 / 17, segWidth = 4 / 17, segType = Future, flatLeft = True,
           flatRight = False\<rparr>]"
proof -
  have a: "differenceInDays (D 2025 3 1) (D 2024 1 1) = 425"
    by (simp add: date_eval)
  have b: "hasFuture \<lparr>cycle = YEARLY, startDate = D 2024 6 1, endDate = Some (D 2024 12 1),
                 autoRenew = False\<rparr> (D 2024 1 1) (D 2025 3 1) 425 today = False"
    by (simp add: hasFuture_def)
  have c: "getPositionPercentage (D 2024 12 1) (D 2024 1 1) 425 = 1340 / 17"
    by (simp add: getPositionPercentage_def date_eval)
  have d: "splitBar \<lparr>cycle = YEARLY, startDate = D 2024 6 1, endDate = Some (D 2024 12 1),
                autoRenew = False\<rparr> (D 2024 1 1) (D 2025 3 1) 425 today
      = [\<lparr>segLeft = 608 / 17, segWidth = 732 / 17, segType = Active, flatLeft = False,
           flatRight = False\<rparr>,
         \<lparr>segLeft = 1340 / 17, segWidth = 4 / 17, segType = Future, flatLeft = True,
           flatRight = False\<rparr>]"
    by (simp add: bar_eval date_eval)
  show ?thesis using a b c d by (intro conjI)
qed

end
